theory Spec2Isabelle
  imports Main "HOL-Library.Sublist"
begin

section \<open>The layer tree of a document\<close>

text \<open>
  The scripts of \<^verbatim>\<open>ps-scripts/\<close> work on the layer tree of the active document.
  A layer is either an art layer (a leaf) with a name, a visibility flag, a kind and,
  when the kind is \<open>TEXT\<close>, the contents of its text item; or a layer set (a group)
  with a name, a visibility flag and its ordered child layers. A layer set has no
  \<open>kind\<close> property. The scripts only compare a kind with \<open>LayerKind.TEXT\<close>.
\<close>

datatype layerKind = NORMAL | TEXT | SOLIDFILL | SMARTOBJECT

datatype layer =
    ArtLayer (name: string) (visible: bool) (kind: layerKind) (contents: string)
  | LayerSet (name: string) (visible: bool) (layers: "layer list")

text \<open>\<open>layer.typename == "LayerSet"\<close>\<close>

fun isLayerSet :: "layer \<Rightarrow> bool" where
  "isLayerSet (LayerSet n v cs) = True"
| "isLayerSet (ArtLayer n v k c) = False"

text \<open>
  \<open>layer.kind && layer.kind == LayerKind.TEXT\<close>: the kind of a layer set is
  undefined, hence falsy; the kind of an art layer is an enumeration object.
\<close>

fun isText :: "layer \<Rightarrow> bool" where
  "isText (ArtLayer n v k c) = (k = TEXT)"
| "isText (LayerSet n v cs) = False"

text \<open>The assignments \<open>layer.visible = b\<close> and \<open>group.name = s\<close>.\<close>

fun set_visible :: "bool \<Rightarrow> layer \<Rightarrow> layer" where
  "set_visible b (ArtLayer n v k c) = ArtLayer n b k c"
| "set_visible b (LayerSet n v cs) = LayerSet n b cs"

fun set_name :: "string \<Rightarrow> layer \<Rightarrow> layer" where
  "set_name s (ArtLayer n v k c) = ArtLayer s v k c"
| "set_name s (LayerSet n v cs) = LayerSet s v cs"

text \<open>
  The collections \<open>container.artLayers\<close> and \<open>container.layerSets\<close> are the art
  layers and the layer sets among \<open>container.layers\<close>, in the same order.
\<close>

definition artLayers :: "layer list \<Rightarrow> layer list" where
  "artLayers ls = filter (\<lambda>l. \<not> isLayerSet l) ls"

definition layerSets :: "layer list \<Rightarrow> layer list" where
  "layerSets ls = filter isLayerSet ls"

text \<open>
  The application as the scripts see it: the layers of the active document
  (\<open>None\<close> when \<open>app.documents.length\<close> is 0), the notices shown by \<open>alert\<close>
  in order, and the files written by \<open>doc.saveAs\<close> (the path, with the top-level
  layers of the document at the moment of the save, which decide what the image shows).
\<close>

record app =
  activeDocument :: "layer list option"
  alerts :: "string list"
  saved :: "(string \<times> layer list) list"

definition alert :: "string \<Rightarrow> app \<Rightarrow> app" where
  "alert msg a = a\<lparr>alerts := alerts a @ [msg]\<rparr>"

section \<open>Strings\<close>

text \<open>
  \<open>s.indexOf(p)\<close>: the least position at which \<open>p\<close> occurs in \<open>s\<close>, or -1.
\<close>

fun startsWith :: "string \<Rightarrow> string \<Rightarrow> bool" where
  "startsWith s [] = True"
| "startsWith [] (c # p) = False"
| "startsWith (d # s) (c # p) = (d = c \<and> startsWith s p)"

fun indexOfFrom :: "nat \<Rightarrow> string \<Rightarrow> string \<Rightarrow> int" where
  "indexOfFrom k [] p = (if p = [] then int k else - 1)"
| "indexOfFrom k (d # s) p =
     (if startsWith (d # s) p then int k else indexOfFrom (Suc k) s p)"

definition indexOf :: "string \<Rightarrow> string \<Rightarrow> int" where
  "indexOf s p = indexOfFrom 0 s p"

text \<open>
  \<open>s.toLowerCase()\<close>: the letters A to Z become a to z and every other character
  of the model is kept.
\<close>

definition lowerChar :: "char \<Rightarrow> char" where
  "lowerChar c =
     (case map_of (zip ''ABCDEFGHIJKLMNOPQRSTUVWXYZ'' ''abcdefghijklmnopqrstuvwxyz'') c of
        Some d \<Rightarrow> d
      | None \<Rightarrow> c)"

definition toLowerCase :: "string \<Rightarrow> string" where
  "toLowerCase s = map lowerChar s"

text \<open>The decimal digits of a count, as string concatenation renders a number.\<close>

fun numberToString :: "nat \<Rightarrow> string" where
  "numberToString n =
     (if n < 10 then [''0123456789'' ! n]
      else numberToString (n div 10) @ [''0123456789'' ! (n mod 10)])"

declare numberToString.simps [simp del]

section \<open>toggle-vis-by-prefix.jsx: toggle visibility by prefix\<close>

text \<open>
  \<open>processLayers(layers, prefix, shouldShow, matchCount)\<close> returns the layers as
  the loop leaves them together with the new count. \<open>processLayer\<close> is the body of
  its loop for one layer: the test of the name, then the recursion into a layer set.
\<close>

fun processLayer :: "layer \<Rightarrow> string \<Rightarrow> bool \<Rightarrow> nat \<Rightarrow> layer \<times> nat"
  and processLayers :: "layer list \<Rightarrow> string \<Rightarrow> bool \<Rightarrow> nat \<Rightarrow> layer list \<times> nat" where
  "processLayer (ArtLayer n v k c) pfx shouldShow matchCount =
     (if indexOf n pfx = 0 then (ArtLayer n shouldShow k c, matchCount + 1)
      else (ArtLayer n v k c, matchCount))"
| "processLayer (LayerSet n v cs) pfx shouldShow matchCount =
     (let (v1, m1) = (if indexOf n pfx = 0 then (shouldShow, matchCount + 1)
                      else (v, matchCount));
          (cs2, m2) = processLayers cs pfx shouldShow m1
      in (LayerSet n v1 cs2, m2))"
| "processLayers [] pfx shouldShow matchCount = ([], matchCount)"
| "processLayers (l # ls) pfx shouldShow matchCount =
     (let (l1, m1) = processLayer l pfx shouldShow matchCount;
          (ls2, m2) = processLayers ls pfx shouldShow m1
      in (l1 # ls2, m2))"

text \<open>
  \<open>toggleLayersByPrefix\<close>, with the answers to its two prompts as arguments
  (\<open>None\<close> when the prompt is cancelled). An empty answer is falsy.
\<close>

definition toggleLayersByPrefix :: "app \<Rightarrow> string option \<Rightarrow> string option \<Rightarrow> app" where
  "toggleLayersByPrefix a prefixAnswer actionAnswer =
     (case activeDocument a of
        None \<Rightarrow> alert ''Please open a document first.'' a
      | Some doc \<Rightarrow>
          (case prefixAnswer of
             None \<Rightarrow> alert ''No prefix entered. Operation cancelled.'' a
           | Some pfx \<Rightarrow>
               if pfx = [] then alert ''No prefix entered. Operation cancelled.'' a
               else
                 (case actionAnswer of
                    None \<Rightarrow> alert ''No action specified. Operation cancelled.'' a
                  | Some action0 \<Rightarrow>
                      if action0 = [] then alert ''No action specified. Operation cancelled.'' a
                      else
                        let action = toLowerCase action0 in
                        if action \<noteq> ''show'' \<and> action \<noteq> ''hide''
                        then alert (''Invalid action. Please enter '' @ [CHR 0x27] @ ''show''
                                    @ [CHR 0x27] @ '' or '' @ [CHR 0x27] @ ''hide''
                                    @ [CHR 0x27] @ ''.'') a
                        else
                          let shouldShow = (action = ''show'');
                              (doc1, matchCount) = processLayers doc pfx shouldShow 0;
                              actionText = (if shouldShow then ''shown'' else ''hidden'')
                          in alert (''Operation complete.'' @ [CHR 0x0A]
                                    @ numberToString matchCount
                                    @ '' layer(s) with prefix '' @ [CHR 0x27] @ pfx
                                    @ [CHR 0x27] @ '' were '' @ actionText @ ''.'')
                               (a\<lparr>activeDocument := Some doc1\<rparr>))))"

section \<open>hide-all-text-layers.jsx\<close>

text \<open>
  \<open>hideTextLayers(container)\<close> on \<open>container.layers\<close>; \<open>hideTextLayer\<close> is the
  body of its loop. Only an art layer has a kind and only a layer set is recursed into.
\<close>

fun hideTextLayer :: "layer \<Rightarrow> layer"
  and hideTextLayers :: "layer list \<Rightarrow> layer list" where
  "hideTextLayer (ArtLayer n v k c) =
     (if k = TEXT then ArtLayer n False k c else ArtLayer n v k c)"
| "hideTextLayer (LayerSet n v cs) = LayerSet n v (hideTextLayers cs)"
| "hideTextLayers [] = []"
| "hideTextLayers (l # ls) = hideTextLayer l # hideTextLayers ls"

text \<open>The script: it does nothing, and shows nothing, when no document is open.\<close>

definition hide_all_text_layers_jsx :: "app \<Rightarrow> app" where
  "hide_all_text_layers_jsx a =
     (case activeDocument a of
        Some doc \<Rightarrow> a\<lparr>activeDocument := Some (hideTextLayers doc)\<rparr>
      | None \<Rightarrow> a)"

section \<open>toggle-vis-by-prefix.jsx: rename groups from contained text\<close>

text \<open>
  The first loop of \<open>getTextFromGroup\<close>, over \<open>group.artLayers\<close>: the contents of
  the first text layer, whatever they are.
\<close>

fun directText :: "layer list \<Rightarrow> string option" where
  "directText [] = None"
| "directText (lyr # ls) = (if isText lyr then Some (contents lyr) else directText ls)"

text \<open>A string is truthy when it is not empty; \<open>null\<close> is falsy.\<close>

fun truthy :: "string option \<Rightarrow> bool" where
  "truthy None = False"
| "truthy (Some s) = (s \<noteq> [])"

text \<open>
  \<open>getTextFromGroup(group)\<close>, with \<open>None\<close> for \<open>null\<close>; \<open>nestedLoop\<close> is its second
  loop, over \<open>group.layerSets\<close>. The function is only ever called on a layer set.
\<close>

function getTextFromGroup :: "layer \<Rightarrow> string option"
  and nestedLoop :: "layer list \<Rightarrow> string option" where
  "getTextFromGroup (ArtLayer n v k c) = None"
| "getTextFromGroup (LayerSet n v cs) =
     (case directText (artLayers cs) of
        Some c \<Rightarrow> Some c
      | None \<Rightarrow> nestedLoop (layerSets cs))"
| "nestedLoop [] = None"
| "nestedLoop (g # gs) =
     (let result = getTextFromGroup g in
      if truthy result then result else nestedLoop gs)"
  by pat_completeness auto
termination
proof (relation "measure (\<lambda>x. case x of Inl g \<Rightarrow> size g | Inr gs \<Rightarrow> size_list size gs)")
  show "wf (measure (\<lambda>x. case x of Inl g \<Rightarrow> size g | Inr gs \<Rightarrow> size_list size gs))"
    by simp
next
  fix n :: string and v :: bool and cs :: "layer list"
  have "size_list size (filter isLayerSet cs) \<le> size_list size cs"
    by (induction cs) auto
  then show "(Inr (layerSets cs), Inl (LayerSet n v cs))
      \<in> measure (\<lambda>x. case x of Inl g \<Rightarrow> size g | Inr gs \<Rightarrow> size_list size gs)"
    by (simp add: layerSets_def)
next
  fix g :: layer and gs :: "layer list"
  show "(Inl g, Inr (g # gs))
      \<in> measure (\<lambda>x. case x of Inl g \<Rightarrow> size g | Inr gs \<Rightarrow> size_list size gs)"
    by simp
next
  fix g :: layer and gs :: "layer list"
  show "(Inr gs, Inr (g # gs))
      \<in> measure (\<lambda>x. case x of Inl g \<Rightarrow> size g | Inr gs \<Rightarrow> size_list size gs)"
    by simp
qed

text \<open>
  \<open>doc.layerSets[i]\<close> is the \<open>i\<close>-th layer set among \<open>doc.layers\<close>: an assignment
  to it changes that layer of the document.
\<close>

fun updateLayerSet :: "nat \<Rightarrow> (layer \<Rightarrow> layer) \<Rightarrow> layer list \<Rightarrow> layer list" where
  "updateLayerSet i f [] = []"
| "updateLayerSet i f (l # ls) =
     (if isLayerSet l
      then (case i of 0 \<Rightarrow> f l # ls | Suc j \<Rightarrow> l # updateLayerSet j f ls)
      else l # updateLayerSet i f ls)"

text \<open>One round of the loop over the top-level layer sets, and the loop.\<close>

definition renameStep :: "nat \<Rightarrow> layer list \<Rightarrow> layer list" where
  "renameStep i doc =
     (let group = layerSets doc ! i;
          textContent = getTextFromGroup group
      in if truthy textContent then updateLayerSet i (set_name (the textContent)) doc
         else doc)"

definition renameLoop :: "layer list \<Rightarrow> layer list" where
  "renameLoop doc = fold renameStep [0..<length (layerSets doc)] doc"

definition renameGroupsFromText :: "app \<Rightarrow> app" where
  "renameGroupsFromText a =
     (case activeDocument a of
        None \<Rightarrow> alert ''No document open!'' a
      | Some doc \<Rightarrow> alert ''Done!'' (a\<lparr>activeDocument := Some (renameLoop doc)\<rparr>))"

text \<open>
  The file \<^verbatim>\<open>toggle-vis-by-prefix.jsx\<close> holds both operations: it runs the toggle
  and then the renaming.
\<close>

definition toggle_vis_by_prefix_jsx :: "app \<Rightarrow> string option \<Rightarrow> string option \<Rightarrow> app" where
  "toggle_vis_by_prefix_jsx a prefixAnswer actionAnswer =
     renameGroupsFromText (toggleLayersByPrefix a prefixAnswer actionAnswer)"

section \<open>export-all-groups.jsx\<close>

text \<open>
  \<open>layer.name.replace(/[\/\\:*?"<>|]/g, "_")\<close>: every character of the class is
  replaced, one at a time, from left to right.
\<close>

definition reserved :: "char list" where
  "reserved = [CHR ''/'', CHR 0x5C, CHR '':'', CHR ''*'', CHR ''?'', CHR 0x22,
               CHR ''<'', CHR ''>'', CHR ''|'']"

fun sanitize :: "string \<Rightarrow> string" where
  "sanitize [] = []"
| "sanitize (c # s) = (if c \<in> set reserved then CHR ''_'' else c) # sanitize s"

text \<open>
  The folder chosen in the dialog: what it is as a string in a concatenation, and
  its \<open>fsName\<close>.
\<close>

record folder =
  toString :: string
  fsName :: string

text \<open>
  The first loop of \<open>main\<close>: it records the visibility of every top-level layer and
  hides the layer. No loop of \<open>main\<close> changes \<open>doc.layers.length\<close>.
\<close>

definition hideStep :: "nat \<Rightarrow> layer list \<times> bool list \<Rightarrow> layer list \<times> bool list" where
  "hideStep i st =
     (case st of (doc, originalStates) \<Rightarrow>
        (doc[i := set_visible False (doc ! i)], originalStates @ [visible (doc ! i)]))"

definition hideLoop :: "layer list \<Rightarrow> layer list \<times> bool list" where
  "hideLoop doc = fold hideStep [0..<length doc] (doc, [])"

text \<open>
  \<open>exportPNG(doc, file)\<close>. \<open>saveAs\<close> stands for the host's \<open>doc.saveAs\<close> with the
  PNG options of the script (compression 9, not interlaced, as a copy, lower-case
  extension): \<open>saveAs file doc\<close> is false when the save throws. A save that
  succeeds writes the file and leaves the document as it is.
\<close>

type_synonym files = "(string \<times> layer list) list"

definition exportPNG :: "(string \<Rightarrow> layer list \<Rightarrow> bool) \<Rightarrow> layer list \<Rightarrow> string \<Rightarrow> files
    \<Rightarrow> files option" where
  "exportPNG saveAs doc file written =
     (if saveAs file doc then Some (written @ [(file, doc)]) else None)"

text \<open>
  The second loop, over the indices still to visit. An exception of the save ends the
  script there (\<open>Inl\<close>, with the document as it is at that moment).
\<close>

type_synonym exportState = "layer list \<times> nat \<times> files"

fun exportLoop :: "(string \<Rightarrow> layer list \<Rightarrow> bool) \<Rightarrow> folder \<Rightarrow> nat list \<Rightarrow> exportState
    \<Rightarrow> exportState + exportState" where
  "exportLoop saveAs exportFolder [] st = Inr st"
| "exportLoop saveAs exportFolder (i # rest) (doc, exportCount, written) =
     (if isLayerSet (doc ! i) then
        let doc1 = doc[i := set_visible True (doc ! i)];
            filename = sanitize (name (doc1 ! i));
            exportFile = toString exportFolder @ ''/'' @ filename @ ''.png''
        in case exportPNG saveAs doc1 exportFile written of
             None \<Rightarrow> Inl (doc1, exportCount, written)
           | Some written1 \<Rightarrow>
               exportLoop saveAs exportFolder rest
                 (doc1[i := set_visible False (doc1 ! i)], exportCount + 1, written1)
      else exportLoop saveAs exportFolder rest (doc, exportCount, written))"

text \<open>The third loop puts the recorded visibilities back.\<close>

definition restoreStep :: "bool list \<Rightarrow> nat \<Rightarrow> layer list \<Rightarrow> layer list" where
  "restoreStep originalStates i doc = doc[i := set_visible (originalStates ! i) (doc ! i)]"

definition restoreLoop :: "bool list \<Rightarrow> layer list \<Rightarrow> layer list" where
  "restoreLoop originalStates doc = fold (restoreStep originalStates) [0..<length doc] doc"

text \<open>
  \<open>main\<close>, with the answer of the folder dialog (\<open>None\<close> when it is cancelled).
\<close>

definition main :: "(string \<Rightarrow> layer list \<Rightarrow> bool) \<Rightarrow> layer list \<Rightarrow> app \<Rightarrow> folder option
    \<Rightarrow> app + app" where
  "main saveAs doc a folderAnswer =
     (case folderAnswer of
        None \<Rightarrow> Inr a
      | Some exportFolder \<Rightarrow>
          (case hideLoop doc of (doc1, originalStates) \<Rightarrow>
             (case exportLoop saveAs exportFolder [0..<length doc1] (doc1, 0, saved a) of
                Inl (doc2, exportCount, files) \<Rightarrow>
                  Inl (a\<lparr>activeDocument := Some doc2, saved := files\<rparr>)
              | Inr (doc2, exportCount, files) \<Rightarrow>
                  Inr (alert (''Exported '' @ numberToString exportCount
                              @ '' groups as PNG files to:'' @ [CHR 0x0A]
                              @ fsName exportFolder)
                         (a\<lparr>activeDocument := Some (restoreLoop originalStates doc2),
                            saved := files\<rparr>)))))"

definition export_all_groups_jsx :: "(string \<Rightarrow> layer list \<Rightarrow> bool) \<Rightarrow> app \<Rightarrow> folder option
    \<Rightarrow> app + app" where
  "export_all_groups_jsx saveAs a folderAnswer =
     (case activeDocument a of
        None \<Rightarrow> Inr (alert ''Please open a document first.'' a)
      | Some doc \<Rightarrow> main saveAs doc a folderAnswer)"

section \<open>Notions used to state the properties\<close>

text \<open>
  A node of the tree is addressed by its path: the index of a top-level layer, then
  the index of a child in that layer set, and so on.
\<close>

fun node_at :: "layer list \<Rightarrow> nat list \<Rightarrow> layer option" where
  "node_at ls [] = None"
| "node_at ls [i] = (if i < length ls then Some (ls ! i) else None)"
| "node_at ls (i # j # path) =
     (if i < length ls \<and> isLayerSet (ls ! i) then node_at (layers (ls ! i)) (j # path)
      else None)"

text \<open>All the nodes of a layer and of a list of layers, each before its descendants.\<close>

fun subtree :: "layer \<Rightarrow> layer list" where
  "subtree (ArtLayer n v k c) = [ArtLayer n v k c]"
| "subtree (LayerSet n v cs) = LayerSet n v cs # concat (map subtree cs)"

definition nodes :: "layer list \<Rightarrow> layer list" where
  "nodes ls = concat (map subtree ls)"

text \<open>The number of nodes whose name starts with a prefix.\<close>

definition matching :: "string \<Rightarrow> layer list \<Rightarrow> nat" where
  "matching p ns = length (filter (\<lambda>l. prefix p (name l)) ns)"

text \<open>
  The tree with the visibility of every node recomputed from the node, and nothing
  else changed.
\<close>

fun relabel :: "(layer \<Rightarrow> bool) \<Rightarrow> layer \<Rightarrow> layer" where
  "relabel f (ArtLayer n v k c) = ArtLayer n (f (ArtLayer n v k c)) k c"
| "relabel f (LayerSet n v cs) = LayerSet n (f (LayerSet n v cs)) (map (relabel f) cs)"

definition toggled :: "string \<Rightarrow> bool \<Rightarrow> layer \<Rightarrow> bool" where
  "toggled p b l = (if prefix p (name l) then b else visible l)"

definition textHidden :: "layer \<Rightarrow> bool" where
  "textHidden l = (if isText l then False else visible l)"

text \<open>
  The order of search that the description of the renaming gives: the text layers
  among the direct children of a layer set first, then its nested layer sets in
  order, each searched the same way. \<open>searchOrder\<close> lists the contents of the text
  layers of a layer set in that order (an art layer among the children contributes
  nothing to the second part).
\<close>

fun searchOrder :: "layer \<Rightarrow> string list" where
  "searchOrder (ArtLayer n v k c) = []"
| "searchOrder (LayerSet n v cs) =
     map contents (filter isText cs) @ concat (map searchOrder cs)"

text \<open>What the loop over the top-level layer sets does to one of them.\<close>

definition renameGroup :: "layer \<Rightarrow> layer" where
  "renameGroup g =
     (case getTextFromGroup g of
        None \<Rightarrow> g
      | Some t \<Rightarrow> if t \<noteq> [] then set_name t g else g)"

text \<open>The document after the first \<open>k\<close> rounds of that loop.\<close>

fun renameFirst :: "nat \<Rightarrow> layer list \<Rightarrow> layer list" where
  "renameFirst k [] = []"
| "renameFirst k (l # ls) =
     (if isLayerSet l
      then (case k of 0 \<Rightarrow> l # ls | Suc j \<Rightarrow> renameGroup l # renameFirst j ls)
      else l # renameFirst k ls)"

section \<open>Example documents\<close>

text \<open>
  The documents, folder and host on which the properties are instantiated below:
  no document at all; a document with hidden layer sets around a text layer and
  around layers named \<open>BG_...\<close>; a document whose top-level layers differ in
  visibility; and two documents with an empty text layer.
\<close>

definition tree1 :: "layer list" where
  "tree1 = [LayerSet ''BG_Group'' False
              [ArtLayer ''BG_Sky'' False NORMAL [],
               ArtLayer ''Title'' True TEXT ''Hello'',
               LayerSet ''FG'' False [ArtLayer ''BG_Hill'' False NORMAL []]],
            ArtLayer ''FG_Tree'' False NORMAL []]"

definition app1 :: app where
  "app1 = \<lparr>activeDocument = Some tree1, alerts = [], saved = []\<rparr>"

definition folder1 :: folder where
  "folder1 = \<lparr>toString = ''~/out'', fsName = ''/home/u/out''\<rparr>"

definition tree2 :: "layer list" where
  "tree2 = [LayerSet ''Act 1'' True
              [ArtLayer ''Layer 1'' True TEXT ''Scene A'', LayerSet ''Inner'' True []],
            ArtLayer ''Backdrop'' True NORMAL [],
            LayerSet ''Act/2'' False []]"

definition app2 :: app where
  "app2 = \<lparr>activeDocument = Some tree2, alerts = [], saved = []\<rparr>"

definition exported2 :: app where
  "exported2 =
     \<lparr>activeDocument = Some tree2,
      alerts = [''Exported 2 groups as PNG files to:'' @ [CHR 0x0A] @ ''/home/u/out''],
      saved = [(''~/out/Act 1.png'',
                [set_visible True (tree2 ! 0), set_visible False (tree2 ! 1), tree2 ! 2]),
               (''~/out/Act_2.png'',
                [set_visible False (tree2 ! 0), set_visible False (tree2 ! 1),
                 set_visible True (tree2 ! 2)])]\<rparr>"

definition saveOk :: "string \<Rightarrow> layer list \<Rightarrow> bool" where
  "saveOk file doc = True"

definition app0 :: app where
  "app0 = \<lparr>activeDocument = None, alerts = [], saved = []\<rparr>"

definition tree3 :: "layer list" where
  "tree3 = [LayerSet ''Act 1'' True
              [ArtLayer ''Layer 1'' True TEXT [],
               LayerSet ''Inner'' True [ArtLayer ''Layer 2'' True TEXT ''Scene A'']]]"

definition app3 :: app where
  "app3 = \<lparr>activeDocument = Some tree3, alerts = [], saved = []\<rparr>"

definition tree4 :: "layer list" where
  "tree4 = [LayerSet ''Act 1'' True
              [LayerSet ''A'' True [ArtLayer ''Layer 1'' True TEXT []],
               LayerSet ''B'' True [],
               LayerSet ''C'' True [ArtLayer ''Layer 2'' True TEXT ''Scene C'']]]"

section \<open>Facts about strings and trees\<close>

lemma startsWith_prefix: "startsWith s p = prefix p s"
  by (induction s p rule: startsWith.induct) auto

lemma indexOfFrom_range: "indexOfFrom k s p = - 1 \<or> int k \<le> indexOfFrom k s p"
  by (induction k s p rule: indexOfFrom.induct) auto

lemma indexOf_zero: "indexOf s p = 0 \<longleftrightarrow> prefix p s"
proof (cases s)
  case Nil
  then show ?thesis by (simp add: indexOf_def)
next
  case (Cons d t)
  have "indexOfFrom (Suc 0) t p \<noteq> 0"
    using indexOfFrom_range [of "Suc 0" t p] by auto
  with Cons show ?thesis
    by (simp add: indexOf_def startsWith_prefix)
qed

lemma processLayers_relabel:
  "processLayer l p b m = (relabel (toggled p b) l, m + matching p (subtree l))"
  "processLayers ls p b m = (map (relabel (toggled p b)) ls, m + matching p (nodes ls))"
  by (induction l p b m and ls p b m rule: processLayer_processLayers.induct)
     (auto simp: indexOf_zero toggled_def matching_def nodes_def)

lemma hideTextLayers_relabel:
  "hideTextLayer l = relabel textHidden l"
  "hideTextLayers ls = map (relabel textHidden) ls"
  by (induction l and ls rule: hideTextLayer_hideTextLayers.induct)
     (auto simp: textHidden_def)

lemma name_relabel: "name (relabel f l) = name l"
  by (cases l) auto

lemma visible_relabel: "visible (relabel f l) = f l"
  by (cases l) auto

lemma isLayerSet_relabel: "isLayerSet (relabel f l) = isLayerSet l"
  by (cases l) auto

lemma layers_relabel: "isLayerSet l \<Longrightarrow> layers (relabel f l) = map (relabel f) (layers l)"
  by (cases l) auto

lemma node_at_relabel:
  "node_at (map (relabel f) ls) path = map_option (relabel f) (node_at ls path)"
  by (induction ls path rule: node_at.induct)
     (auto simp: isLayerSet_relabel layers_relabel)

lemma self_in_subtree: "n \<in> set (subtree n)"
  by (cases n) auto

lemma node_at_nodes: "node_at ls path = Some n \<Longrightarrow> n \<in> set (nodes ls)"
proof (induction ls path rule: node_at.induct)
  case (1 ls)
  then show ?case by simp
next
  case (2 ls i)
  then have "n \<in> set ls" by (auto split: if_splits)
  then show ?case using self_in_subtree by (auto simp: nodes_def)
next
  case (3 ls i j path)
  then have i: "i < length ls" "isLayerSet (ls ! i)" and
    n: "n \<in> set (nodes (layers (ls ! i)))" by (auto split: if_splits)
  then have "n \<in> set (subtree (ls ! i))" by (cases "ls ! i") (auto simp: nodes_def)
  with i show ?case by (auto simp: nodes_def)
qed

lemma nodes_node_at:
  "n \<in> set (subtree l) \<Longrightarrow> l \<in> set ls \<Longrightarrow> \<exists>path. node_at ls path = Some n"
proof (induction l arbitrary: ls)
  case (ArtLayer x1 x2 x3 x4)
  then obtain i where "i < length ls" "ls ! i = n" by (auto simp: in_set_conv_nth)
  then have "node_at ls [i] = Some n" by simp
  then show ?case by blast
next
  case (LayerSet x1 x2 cs)
  from LayerSet.prems(2) obtain i where i: "i < length ls" "ls ! i = LayerSet x1 x2 cs"
    by (auto simp: in_set_conv_nth)
  show ?case
  proof (cases "n = LayerSet x1 x2 cs")
    case True
    with i have "node_at ls [i] = Some n" by simp
    then show ?thesis by blast
  next
    case False
    with LayerSet.prems(1) obtain c where c: "c \<in> set cs" "n \<in> set (subtree c)" by auto
    from LayerSet.IH [OF c(1) c(2) c(1)] obtain path where p: "node_at cs path = Some n"
      by blast
    then obtain j rest where "path = j # rest" by (cases path) auto
    with p i have "node_at ls (i # j # rest) = Some n" by simp
    then show ?thesis by blast
  qed
qed

lemma nodes_iff_path: "n \<in> set (nodes ls) \<longleftrightarrow> (\<exists>path. node_at ls path = Some n)"
proof
  assume "n \<in> set (nodes ls)"
  then obtain l where "l \<in> set ls" "n \<in> set (subtree l)" by (auto simp: nodes_def)
  then show "\<exists>path. node_at ls path = Some n" by (rule nodes_node_at [rotated])
next
  assume "\<exists>path. node_at ls path = Some n"
  then show "n \<in> set (nodes ls)" using node_at_nodes by blast
qed

lemma toggle_script_run:
  assumes "activeDocument a = Some doc" "p \<noteq> []" "toLowerCase action = ''show'' \<or> toLowerCase action = ''hide''"
  shows "toggleLayersByPrefix a (Some p) (Some action) =
     alert (''Operation complete.'' @ [CHR 0x0A]
            @ numberToString (matching p (nodes doc))
            @ '' layer(s) with prefix '' @ [CHR 0x27] @ p
            @ [CHR 0x27] @ '' were ''
            @ (if toLowerCase action = ''show'' then ''shown'' else ''hidden'') @ ''.'')
       (a\<lparr>activeDocument := Some (map (relabel (toggled p (toLowerCase action = ''show''))) doc)\<rparr>)"
proof -
  from assms(3) have "action \<noteq> []" by (auto simp: toLowerCase_def)
  with assms show ?thesis
    unfolding toggleLayersByPrefix_def
    by (auto simp: processLayers_relabel Let_def)
qed

lemma subtree_relabel: "subtree (relabel f l) = map (relabel f) (subtree l)"
  by (induction l) (auto simp: map_concat cong: map_cong)

lemma nodes_relabel: "nodes (map (relabel f) ls) = map (relabel f) (nodes ls)"
  by (simp add: nodes_def map_concat subtree_relabel cong: map_cong)

lemma matching_relabel: "matching p (map (relabel f) ns) = matching p ns"
  by (induction ns) (auto simp: matching_def name_relabel)

lemma sanitize_map:
  "sanitize s = map (\<lambda>c. if c \<in> set reserved then CHR ''_'' else c) s"
  by (induction s) auto

lemma hideTextLayers_twice:
  "hideTextLayer (hideTextLayer l) = hideTextLayer l"
  "hideTextLayers (hideTextLayers ls) = hideTextLayers ls"
  by (induction l and ls rule: hideTextLayer_hideTextLayers.induct) auto

lemma set_visible_restore: "set_visible (visible l) (set_visible b l) = l"
  by (cases l) auto

lemma visible_set_visible: "visible (set_visible b l) = b"
  by (cases l) auto

lemma set_visible_twice: "set_visible b (set_visible c l) = set_visible b l"
  by (cases l) auto

lemma set_visible_same: "visible l = b \<Longrightarrow> set_visible b l = l"
  by (cases l) auto

lemma hideLoop_upto:
  "k \<le> length doc \<Longrightarrow>
   fold hideStep [0..<k] (doc, []) =
     (map (set_visible False) (take k doc) @ drop k doc, map visible (take k doc))"
proof (induction k)
  case 0
  then show ?case by simp
next
  case (Suc k)
  then have k: "k < length doc" by simp
  then have d: "drop k doc = doc ! k # drop (Suc k) doc"
    by (simp add: Cons_nth_drop_Suc)
  from Suc k show ?case
    by (simp add: hideStep_def d take_Suc_conv_app_nth nth_append list_update_append)
qed

lemma hideLoop_eq: "hideLoop doc = (map (set_visible False) doc, map visible doc)"
  by (simp add: hideLoop_def hideLoop_upto)

lemma restoreLoop_upto:
  "k \<le> length doc \<Longrightarrow> length os = length doc \<Longrightarrow>
   fold (restoreStep os) [0..<k] doc =
     map2 set_visible (take k os) (take k doc) @ drop k doc"
proof (induction k)
  case 0
  then show ?case by simp
next
  case (Suc k)
  then have k: "k < length doc" "k < length os" by simp_all
  then have d: "drop k doc = doc ! k # drop (Suc k) doc"
    by (simp add: Cons_nth_drop_Suc)
  from Suc k show ?case
    by (simp add: restoreStep_def d take_Suc_conv_app_nth nth_append list_update_append)
qed

lemma restoreLoop_eq:
  "length os = length doc \<Longrightarrow> restoreLoop os doc = map2 set_visible os doc"
  by (simp add: restoreLoop_def restoreLoop_upto)

lemma restore_hidden:
  "map2 set_visible (map visible doc) (map (set_visible False) doc) = doc"
  by (induction doc) (auto simp: set_visible_restore)

lemma exportLoop_hidden:
  "exportLoop saveAs F idxs st = Inr st' \<Longrightarrow> \<forall>l \<in> set (fst st). \<not> visible l \<Longrightarrow>
   \<forall>i \<in> set idxs. i < length (fst st) \<Longrightarrow> fst st' = fst st"
proof (induction saveAs F idxs st rule: exportLoop.induct)
  case (1 saveAs exportFolder st)
  then show ?case by simp
next
  case (2 saveAs exportFolder i rest doc exportCount written)
  from "2.prems" have i: "i < length doc" "\<not> visible (doc ! i)" by auto
  then have same: "doc[i := set_visible False (doc ! i)] = doc"
    by (simp add: set_visible_same list_update_same_conv)
  show ?case
  proof (cases "isLayerSet (doc ! i)")
    case True
    let ?doc1 = "doc[i := set_visible True (doc ! i)]"
    let ?file = "toString exportFolder @ ''/'' @ sanitize (name (?doc1 ! i)) @ ''.png''"
    from "2.prems"(1) True obtain written1 where
      w: "exportPNG saveAs ?doc1 ?file written = Some written1"
      by (cases "exportPNG saveAs ?doc1 ?file written") (simp_all add: Let_def)
    from "2.IH"(1) [OF True refl refl refl w] "2.prems" True w i same
    show ?thesis by (simp add: Let_def set_visible_twice)
  next
    case False
    from "2.IH"(2) [OF False] "2.prems" False show ?thesis by simp
  qed
qed

lemma exportLoop_total:
  "\<forall>file d. saveAs file d \<Longrightarrow> \<exists>st'. exportLoop saveAs F idxs st = Inr st'"
  by (induction saveAs F idxs st rule: exportLoop.induct) (auto simp: Let_def exportPNG_def)

lemma main_completed:
  assumes "main saveAs doc a (Some F) = Inr a'"
  shows "activeDocument a' = Some doc"
proof -
  let ?d1 = "map (set_visible False) doc"
  from assms obtain d2 c fs where
    loop: "exportLoop saveAs F [0..<length doc] (?d1, 0, saved a) = Inr (d2, c, fs)"
    and a': "activeDocument a' = Some (restoreLoop (map visible doc) d2)"
    by (auto simp: main_def hideLoop_eq alert_def split: sum.splits prod.splits)
  from exportLoop_hidden [OF loop] have "d2 = ?d1" by (simp add: visible_set_visible)
  with a' show ?thesis by (simp add: restoreLoop_eq restore_hidden)
qed

lemma isLayerSet_set_name: "isLayerSet (set_name s l) = isLayerSet l"
  by (cases l) auto

lemma layers_set_name: "isLayerSet l \<Longrightarrow> layers (set_name s l) = layers l"
  by (cases l) auto

lemma renameGroup_truthy:
  "renameGroup g =
     (if truthy (getTextFromGroup g) then set_name (the (getTextFromGroup g)) g else g)"
  by (cases "getTextFromGroup g") (auto simp: renameGroup_def)

lemma isLayerSet_renameGroup: "isLayerSet (renameGroup l) = isLayerSet l"
  by (simp add: renameGroup_truthy isLayerSet_set_name)

lemma layers_renameGroup: "isLayerSet l \<Longrightarrow> layers (renameGroup l) = layers l"
  by (simp add: renameGroup_truthy layers_set_name)

lemma renameFirst_0: "renameFirst 0 doc = doc"
  by (induction doc) auto

lemma renameStep_Cons_art:
  "\<not> isLayerSet l \<Longrightarrow> renameStep i (l # ls) = l # renameStep i ls"
  by (simp add: renameStep_def layerSets_def Let_def)

lemma renameStep_Cons_set:
  "isLayerSet g \<Longrightarrow> renameStep (Suc j) (g # ls) = g # renameStep j ls"
  by (simp add: renameStep_def layerSets_def Let_def)

lemma renameStep_0:
  "isLayerSet g \<Longrightarrow> renameStep 0 (g # ls) = renameGroup g # ls"
  by (simp add: renameStep_def layerSets_def Let_def renameGroup_truthy)

lemma renameStep_renameFirst:
  "k < length (layerSets doc) \<Longrightarrow> renameStep k (renameFirst k doc) = renameFirst (Suc k) doc"
proof (induction doc arbitrary: k)
  case Nil
  then show ?case by (simp add: layerSets_def)
next
  case (Cons l ls)
  show ?case
  proof (cases "isLayerSet l")
    case False
    with Cons.prems have "k < length (layerSets ls)" by (simp add: layerSets_def)
    from Cons.IH [OF this] False show ?thesis by (simp add: renameStep_Cons_art)
  next
    case True
    show ?thesis
    proof (cases k)
      case 0
      with True show ?thesis by (simp add: renameStep_0 renameFirst_0)
    next
      case (Suc j)
      with Cons.prems True have "j < length (layerSets ls)" by (simp add: layerSets_def)
      from Cons.IH [OF this] True Suc show ?thesis
        by (simp add: renameStep_Cons_set isLayerSet_renameGroup)
    qed
  qed
qed

lemma fold_renameStep:
  "k \<le> length (layerSets doc) \<Longrightarrow> fold renameStep [0..<k] doc = renameFirst k doc"
proof (induction k)
  case 0
  then show ?case by (simp add: renameFirst_0)
next
  case (Suc k)
  then show ?case by (simp add: renameStep_renameFirst)
qed

lemma renameFirst_all:
  "renameFirst (length (layerSets doc)) doc
     = map (\<lambda>l. if isLayerSet l then renameGroup l else l) doc"
  by (induction doc) (auto simp: layerSets_def)

lemma renameLoop_map:
  "renameLoop doc = map (\<lambda>l. if isLayerSet l then renameGroup l else l) doc"
  by (simp add: renameLoop_def fold_renameStep renameFirst_all)

lemma node_at_renamed:
  "node_at (map (\<lambda>l. if isLayerSet l then renameGroup l else l) doc) (i # j # path)
     = node_at doc (i # j # path)"
  by (auto simp: isLayerSet_renameGroup layers_renameGroup)

lemma directText_filter:
  "directText ls = (case filter isText ls of [] \<Rightarrow> None | l # r \<Rightarrow> Some (contents l))"
  by (induction ls) auto

lemma isText_not_LayerSet: "isText l \<Longrightarrow> \<not> isLayerSet l"
  by (cases l) auto

lemma filter_isText_artLayers: "filter isText (artLayers cs) = filter isText cs"
  by (induction cs) (auto simp: artLayers_def isText_not_LayerSet)

lemma searchOrder_art: "\<not> isLayerSet l \<Longrightarrow> searchOrder l = []"
  by (cases l) auto

lemma getText_art: "\<not> isLayerSet l \<Longrightarrow> getTextFromGroup l = None"
  by (cases l) auto

lemma searchOrder_layerSets:
  "concat (map searchOrder (layerSets cs)) = concat (map searchOrder cs)"
  by (induction cs) (auto simp: layerSets_def searchOrder_art)

lemma nodes_layerSets: "set (nodes (layerSets cs)) \<subseteq> set (nodes cs)"
  by (auto simp: nodes_def layerSets_def)

lemma getText_searchOrder:
  "(searchOrder g = [] \<longrightarrow> getTextFromGroup g = None)
   \<and> (\<forall>t r. searchOrder g = t # r \<and> t \<noteq> [] \<longrightarrow> getTextFromGroup g = Some t)"
  "(concat (map searchOrder gs) = [] \<longrightarrow> nestedLoop gs = None)
   \<and> (\<forall>t r. concat (map searchOrder gs) = t # r \<and> t \<noteq> [] \<longrightarrow> nestedLoop gs = Some t)"
proof (induction g and gs rule: getTextFromGroup_nestedLoop.induct)
  case (1 n v k c)
  show ?case by simp
next
  case (2 n v cs)
  show ?case
  proof (cases "filter isText cs")
    case Nil
    then have "directText (artLayers cs) = None"
      by (simp add: directText_filter filter_isText_artLayers)
    with 2 Nil show ?thesis by (simp add: searchOrder_layerSets)
  next
    case (Cons l r)
    then have "directText (artLayers cs) = Some (contents l)"
      by (simp add: directText_filter filter_isText_artLayers)
    with Cons show ?thesis by simp
  qed
next
  case 3
  show ?case by simp
next
  case (4 g gs)
  show ?case
  proof (cases "searchOrder g")
    case Nil
    with "4.IH"(1) have none: "getTextFromGroup g = None" by simp
    then have "\<not> truthy (getTextFromGroup g)" by simp
    from "4.IH"(2) [OF refl this] Nil none show ?thesis by simp
  next
    case (Cons t r)
    show ?thesis
    proof (cases "t = []")
      case True
      with Cons show ?thesis by simp
    next
      case False
      with Cons "4.IH"(1) have "getTextFromGroup g = Some t" by simp
      with Cons False show ?thesis by simp
    qed
  qed
qed

lemma directText_Some: "directText ls = Some c \<Longrightarrow> \<exists>l \<in> set ls. isText l"
  by (induction ls) (auto split: if_splits)

lemma getText_needs_text:
  "getTextFromGroup g \<noteq> None \<longrightarrow> (\<exists>d \<in> set (nodes (layers g)). isText d)"
  "nestedLoop gs \<noteq> None \<longrightarrow> (\<exists>d \<in> set (nodes gs). isText d)"
proof (induction g and gs rule: getTextFromGroup_nestedLoop.induct)
  case (1 n v k c)
  show ?case by simp
next
  case (2 n v cs)
  show ?case
  proof (cases "directText (artLayers cs)")
    case None
    show ?thesis
    proof
      assume "getTextFromGroup (LayerSet n v cs) \<noteq> None"
      with None have "nestedLoop (layerSets cs) \<noteq> None" by simp
      with 2 [OF None] obtain d where "d \<in> set (nodes (layerSets cs))" "isText d" by blast
      with nodes_layerSets [of cs] have "d \<in> set (nodes cs)" "isText d" by blast+
      then show "\<exists>d \<in> set (nodes (layers (LayerSet n v cs))). isText d" by auto
    qed
  next
    case (Some c)
    from directText_Some [OF this] obtain l where "l \<in> set cs" "isText l"
      by (auto simp: artLayers_def)
    then have "l \<in> set (nodes cs)" using self_in_subtree by (auto simp: nodes_def)
    with \<open>isText l\<close> show ?thesis by auto
  qed
next
  case 3
  show ?case by simp
next
  case (4 g gs)
  have nodes_Cons: "set (nodes (g # gs)) = set (subtree g) \<union> set (nodes gs)"
    by (simp add: nodes_def)
  show ?case
  proof (cases "truthy (getTextFromGroup g)")
    case True
    then have ne: "getTextFromGroup g \<noteq> None" by (cases "getTextFromGroup g") auto
    have set: "isLayerSet g"
    proof (rule ccontr)
      assume "\<not> isLayerSet g"
      then have "getTextFromGroup g = None" by (rule getText_art)
      with ne show False by simp
    qed
    have sub: "set (nodes (layers g)) \<subseteq> set (subtree g)"
      using set by (cases g) (simp_all add: nodes_def subset_insertI)
    from "4.IH"(1) ne obtain d where "d \<in> set (nodes (layers g))" "isText d" by blast
    with sub have "d \<in> set (nodes (g # gs))" "isText d" unfolding nodes_Cons by blast+
    then show ?thesis by blast
  next
    case False
    then have eq: "nestedLoop (g # gs) = nestedLoop gs" by simp
    show ?thesis
    proof
      assume "nestedLoop (g # gs) \<noteq> None"
      with eq have "nestedLoop gs \<noteq> None" by simp
      with "4.IH"(2) [OF refl False] obtain d where "d \<in> set (nodes gs)" "isText d" by blast
      then have "d \<in> set (nodes (g # gs))" unfolding nodes_Cons by blast
      with \<open>isText d\<close> show "\<exists>d \<in> set (nodes (g # gs)). isText d" by blast
    qed
  qed
qed

lemma rename_script_run:
  "activeDocument a = Some doc \<Longrightarrow>
   renameGroupsFromText a =
     alert ''Done!''
       (a\<lparr>activeDocument := Some (map (\<lambda>l. if isLayerSet l then renameGroup l else l) doc)\<rparr>)"
  by (simp add: renameGroupsFromText_def renameLoop_map)

lemma nestedLoop_skip:
  "\<forall>x \<in> set gs1. \<not> truthy (getTextFromGroup x) \<Longrightarrow> nestedLoop (gs1 @ gs) = nestedLoop gs"
  by (induction gs1) auto

lemma not_truthy_iff: "\<not> truthy r \<longleftrightarrow> r = None \<or> r = Some []"
  by (cases r) auto

lemma nestedLoop_all_falsy:
  "\<forall>x \<in> set gs. \<not> truthy (getTextFromGroup x) \<Longrightarrow> nestedLoop gs = None"
  by (induction gs) auto

text \<open>
  A save that throws ends the export before the third loop: the visibilities are
  not put back.
\<close>

lemma export_throwing_save_example:
  "export_all_groups_jsx (\<lambda>file doc. False) app2 (Some folder1)
     = Inl \<lparr>activeDocument =
              Some [set_visible True (tree2 ! 0), set_visible False (tree2 ! 1), tree2 ! 2],
            alerts = [], saved = []\<rparr>"
  by (simp add: export_all_groups_jsx_def main_def app2_def tree2_def folder1_def
      hideLoop_def hideStep_def exportPNG_def upt_rec [of 0] upt_rec [of 1] upt_rec [of 2]
      upt_rec [of 3])

lemma toggle_vis_by_prefix_jsx_no_document:
  "activeDocument a = None \<Longrightarrow>
   alerts (toggle_vis_by_prefix_jsx a prefixAnswer actionAnswer)
     = alerts a @ [''Please open a document first.'', ''No document open!'']"
  by (simp add: toggle_vis_by_prefix_jsx_def toggleLayersByPrefix_def renameGroupsFromText_def
      alert_def)

section \<open>Toggle by prefix\<close>

text \<open>
  C1. After the toggle runs on a document with a non-empty prefix \<open>p\<close> and the
  action show, every node of the tree, at any depth, is still at its place with its
  name; its visibility is true when its name starts with \<open>p\<close>, and what it was
  before when its name does not.
\<close>

theorem toggle_show_sets_matching_visible:
  assumes "activeDocument a = Some doc" and "p \<noteq> []" and "toLowerCase action = ''show''"
    and "node_at doc path = Some n"
  shows "\<exists>doc' n'. activeDocument (toggleLayersByPrefix a (Some p) (Some action)) = Some doc'
           \<and> node_at doc' path = Some n' \<and> name n' = name n
           \<and> (if prefix p (name n) then visible n' = True else visible n' = visible n)"
proof -
  let ?f = "toggled p True"
  have run: "activeDocument (toggleLayersByPrefix a (Some p) (Some action))
      = Some (map (relabel ?f) doc)"
    using assms(1-3) by (simp add: toggle_script_run alert_def)
  have at: "node_at (map (relabel ?f) doc) path = Some (relabel ?f n)"
    using assms(4) by (simp add: node_at_relabel)
  have "name (relabel ?f n) = name n" by (rule name_relabel)
  moreover have "if prefix p (name n) then visible (relabel ?f n) = True
      else visible (relabel ?f n) = visible n"
    by (simp add: visible_relabel toggled_def)
  ultimately show ?thesis using run at by blast
qed

theorem toggle_show_sets_matching_visible_witness:
  "toLowerCase ''Show'' = ''show''
   \<and> node_at tree1 [0, 2, 0] = Some (ArtLayer ''BG_Hill'' False NORMAL [])
   \<and> node_at tree1 [0, 2] = Some (LayerSet ''FG'' False [ArtLayer ''BG_Hill'' False NORMAL []])
   \<and> (\<exists>doc' n' g'. activeDocument (toggleLayersByPrefix app1 (Some ''BG_'') (Some ''Show''))
        = Some doc'
       \<and> node_at doc' [0, 2, 0] = Some n' \<and> name n' = ''BG_Hill'' \<and> visible n' = True
       \<and> node_at doc' [0, 2] = Some g' \<and> name g' = ''FG'' \<and> visible g' = False)"
proof -
  have low: "toLowerCase ''Show'' = ''show''" by (simp add: toLowerCase_def lowerChar_def)
  have n1: "node_at tree1 [0, 2, 0] = Some (ArtLayer ''BG_Hill'' False NORMAL [])"
    by (simp add: tree1_def)
  have n2: "node_at tree1 [0, 2] = Some (LayerSet ''FG'' False [ArtLayer ''BG_Hill'' False NORMAL []])"
    by (simp add: tree1_def)
  have doc: "activeDocument app1 = Some tree1" by (simp add: app1_def)
  have ne: "''BG_'' \<noteq> []" by simp
  from toggle_show_sets_matching_visible [OF doc ne low n1]
  obtain d1 m1 where
    d1: "activeDocument (toggleLayersByPrefix app1 (Some ''BG_'') (Some ''Show'')) = Some d1"
    and m1: "node_at d1 [0, 2, 0] = Some m1" "name m1 = ''BG_Hill''" "visible m1 = True"
    by auto
  from toggle_show_sets_matching_visible [OF doc ne low n2]
  obtain d2 m2 where
    d2: "activeDocument (toggleLayersByPrefix app1 (Some ''BG_'') (Some ''Show'')) = Some d2"
    and m2: "node_at d2 [0, 2] = Some m2" "name m2 = ''FG''" "visible m2 = False"
    by auto
  from d1 d2 have "d2 = d1" by simp
  with d1 m1 m2
  have "\<exists>doc' n' g'. activeDocument (toggleLayersByPrefix app1 (Some ''BG_'') (Some ''Show''))
        = Some doc'
       \<and> node_at doc' [0, 2, 0] = Some n' \<and> name n' = ''BG_Hill'' \<and> visible n' = True
       \<and> node_at doc' [0, 2] = Some g' \<and> name g' = ''FG'' \<and> visible g' = False"
    by blast
  with low n1 n2 show ?thesis by blast
qed

text \<open>
  C2. The count that \<open>processLayers\<close> returns is the count it was given plus the
  number of nodes of the tree, layer sets and art layers at any depth, whose name
  starts with the prefix; the toggle starts it at 0 and shows that number in its
  closing notice.
\<close>

theorem toggle_count_is_number_of_matching_nodes:
  "snd (processLayers doc p shouldShow m)
     = m + length (filter (\<lambda>n. prefix p (name n)) (nodes doc))
   \<and> (activeDocument a = Some doc \<and> p \<noteq> []
        \<and> (toLowerCase action = ''show'' \<or> toLowerCase action = ''hide'')
      \<longrightarrow> alerts (toggleLayersByPrefix a (Some p) (Some action))
          = alerts a @
            [''Operation complete.'' @ [CHR 0x0A]
             @ numberToString (length (filter (\<lambda>n. prefix p (name n)) (nodes doc)))
             @ '' layer(s) with prefix '' @ [CHR 0x27] @ p @ [CHR 0x27] @ '' were ''
             @ (if toLowerCase action = ''show'' then ''shown'' else ''hidden'') @ ''.''])"
proof (intro conjI impI)
  show "snd (processLayers doc p shouldShow m)
     = m + length (filter (\<lambda>n. prefix p (name n)) (nodes doc))"
    by (simp add: processLayers_relabel matching_def)
next
  assume "activeDocument a = Some doc \<and> p \<noteq> []
        \<and> (toLowerCase action = ''show'' \<or> toLowerCase action = ''hide'')"
  then have "activeDocument a = Some doc" "p \<noteq> []"
    "toLowerCase action = ''show'' \<or> toLowerCase action = ''hide''" by blast+
  from toggle_script_run [OF this]
  show "alerts (toggleLayersByPrefix a (Some p) (Some action))
          = alerts a @
            [''Operation complete.'' @ [CHR 0x0A]
             @ numberToString (length (filter (\<lambda>n. prefix p (name n)) (nodes doc)))
             @ '' layer(s) with prefix '' @ [CHR 0x27] @ p @ [CHR 0x27] @ '' were ''
             @ (if toLowerCase action = ''show'' then ''shown'' else ''hidden'') @ ''.'']"
    by (simp add: alert_def matching_def)
qed

theorem toggle_count_is_number_of_matching_nodes_witness:
  "activeDocument app1 = Some tree1 \<and> ''BG_'' \<noteq> [] \<and> toLowerCase ''HIDE'' = ''hide''
   \<and> length (filter (\<lambda>n. prefix ''BG_'' (name n)) (nodes tree1)) = 3
   \<and> snd (processLayers tree1 ''BG_'' False 0) = 3
   \<and> alerts (toggleLayersByPrefix app1 (Some ''BG_'') (Some ''HIDE''))
       = [''Operation complete.'' @ [CHR 0x0A] @ ''3 layer(s) with prefix ''
          @ [CHR 0x27] @ ''BG_'' @ [CHR 0x27] @ '' were hidden.'']"
proof -
  have low: "toLowerCase ''HIDE'' = ''hide''" by (simp add: toLowerCase_def lowerChar_def)
  have cnt: "length (filter (\<lambda>n. prefix ''BG_'' (name n)) (nodes tree1)) = 3"
    by (simp add: tree1_def nodes_def)
  have doc: "activeDocument app1 = Some tree1" "alerts app1 = []" by (simp_all add: app1_def)
  have three: "numberToString 3 = ''3''" by (simp add: numberToString.simps)
  from toggle_count_is_number_of_matching_nodes [of tree1 "''BG_''" False 0 app1 "''HIDE''"]
  show ?thesis
    unfolding cnt by (simp add: low doc three)
qed

section \<open>Hide all text layers\<close>

text \<open>
  C8. Hiding the text layers twice gives the same tree, hence the same visibility
  of every node, as hiding them once; so does running the script twice.
\<close>

theorem hide_all_text_idempotent:
  "hideTextLayers (hideTextLayers doc) = hideTextLayers doc
   \<and> hide_all_text_layers_jsx (hide_all_text_layers_jsx a) = hide_all_text_layers_jsx a"
  by (cases "activeDocument a") (simp_all add: hide_all_text_layers_jsx_def hideTextLayers_twice)

section \<open>Export all groups\<close>

text \<open>
  C7. The file name made from a layer set's name has the same length as the name;
  at every position it has an underscore where the name has one of the characters
  \<open>/ \ : * ? " < > |\<close> and the character of the name elsewhere. A name with
  none of these characters is its own file name.
\<close>

theorem sanitize_replaces_reserved_characters:
  "length (sanitize s) = length s
   \<and> (\<forall>i<length s. sanitize s ! i
         = (if s ! i \<in> {CHR ''/'', CHR 0x5C, CHR '':'', CHR ''*'', CHR ''?'', CHR 0x22,
                         CHR ''<'', CHR ''>'', CHR ''|''}
            then CHR ''_'' else s ! i))
   \<and> (set s \<inter> {CHR ''/'', CHR 0x5C, CHR '':'', CHR ''*'', CHR ''?'', CHR 0x22,
                CHR ''<'', CHR ''>'', CHR ''|''} = {} \<longrightarrow> sanitize s = s)"
proof -
  have r: "set reserved = {CHR ''/'', CHR 0x5C, CHR '':'', CHR ''*'', CHR ''?'', CHR 0x22,
                CHR ''<'', CHR ''>'', CHR ''|''}"
    by (simp add: reserved_def)
  have "set s \<inter> set reserved = {} \<Longrightarrow> sanitize s = s"
    by (induction s) auto
  then show ?thesis
    unfolding r [symmetric] by (simp add: sanitize_map)
qed

theorem sanitize_replaces_reserved_characters_witness:
  "sanitize ''a/b:c?'' = ''a_b_c_'' \<and> sanitize [CHR ''x'', CHR 0x5C, CHR 0x22, CHR ''y''] = ''x__y''
   \<and> set ''Act 1'' \<inter> {CHR ''/'', CHR 0x5C, CHR '':'', CHR ''*'', CHR ''?'', CHR 0x22,
                CHR ''<'', CHR ''>'', CHR ''|''} = {} \<and> sanitize ''Act 1'' = ''Act 1''"
proof -
  have e: "set ''Act 1'' \<inter> {CHR ''/'', CHR 0x5C, CHR '':'', CHR ''*'', CHR ''?'', CHR 0x22,
                CHR ''<'', CHR ''>'', CHR ''|''} = {}" by simp
  have "sanitize ''Act 1'' = ''Act 1''"
    using sanitize_replaces_reserved_characters [of "''Act 1''"] e by blast
  moreover have "sanitize ''a/b:c?'' = ''a_b_c_''" by (simp add: reserved_def)
  moreover have "sanitize [CHR ''x'', CHR 0x5C, CHR 0x22, CHR ''y''] = ''x__y''"
    by (simp add: reserved_def)
  ultimately show ?thesis using e by blast
qed

text \<open>
  C3. When the export script completes on a document with a chosen folder, the
  document has as many top-level layers as before and each of them, layer set or
  art layer, has the visibility it had before the call, however many layer sets were
  exported. The script does complete when no save throws.
\<close>

theorem export_restores_top_level_visibility:
  "(activeDocument a = Some doc
      \<and> export_all_groups_jsx saveAs a (Some exportFolder) = Inr a'
     \<longrightarrow> (\<exists>doc'. activeDocument a' = Some doc' \<and> length doc' = length doc
            \<and> (\<forall>i<length doc. visible (doc' ! i) = visible (doc ! i))))
   \<and> ((\<forall>file d. saveAs file d)
     \<longrightarrow> (\<exists>a''. export_all_groups_jsx saveAs a (Some exportFolder) = Inr a''))"
proof (intro conjI impI)
  assume "activeDocument a = Some doc
      \<and> export_all_groups_jsx saveAs a (Some exportFolder) = Inr a'"
  then have "main saveAs doc a (Some exportFolder) = Inr a'"
    by (auto simp: export_all_groups_jsx_def)
  then have "activeDocument a' = Some doc" by (rule main_completed)
  then show "\<exists>doc'. activeDocument a' = Some doc' \<and> length doc' = length doc
            \<and> (\<forall>i<length doc. visible (doc' ! i) = visible (doc ! i))"
    by simp
next
  assume ok: "\<forall>file d. saveAs file d"
  show "\<exists>a''. export_all_groups_jsx saveAs a (Some exportFolder) = Inr a''"
  proof (cases "activeDocument a")
    case None
    then show ?thesis by (simp add: export_all_groups_jsx_def)
  next
    case (Some doc)
    from exportLoop_total [OF ok] obtain st' where
      "exportLoop saveAs exportFolder [0..<length doc]
         (map (set_visible False) doc, 0, saved a) = Inr st'"
      by blast
    with Some show ?thesis
      by (cases st') (simp add: export_all_groups_jsx_def main_def hideLoop_eq)
  qed
qed

theorem export_restores_top_level_visibility_witness:
  "activeDocument app2 = Some tree2
   \<and> (\<forall>file d. saveOk file d)
   \<and> export_all_groups_jsx saveOk app2 (Some folder1) = Inr exported2
   \<and> (\<exists>doc'. activeDocument exported2 = Some doc' \<and> length doc' = length tree2
          \<and> (\<forall>i<length tree2. visible (doc' ! i) = visible (tree2 ! i)))
   \<and> map visible tree2 = [True, True, False]"
proof -
  have run: "export_all_groups_jsx saveOk app2 (Some folder1) = Inr exported2"
    by (simp add: export_all_groups_jsx_def main_def app2_def tree2_def folder1_def saveOk_def
        hideLoop_def hideStep_def restoreLoop_def restoreStep_def alert_def reserved_def
        exportPNG_def exported2_def numberToString.simps upt_rec [of 0] upt_rec [of 1] upt_rec [of 2]
        upt_rec [of 3])
  have doc: "activeDocument app2 = Some tree2" by (simp add: app2_def)
  have ok: "\<forall>file d. saveOk file d" by (simp add: saveOk_def)
  have vis: "map visible tree2 = [True, True, False]" by (simp add: tree2_def)
  from export_restores_top_level_visibility [of app2 tree2 saveOk folder1 exported2] run doc
  have "\<exists>doc'. activeDocument exported2 = Some doc' \<and> length doc' = length tree2
          \<and> (\<forall>i<length tree2. visible (doc' ! i) = visible (tree2 ! i))"
    by blast
  with run doc ok vis show ?thesis by blast
qed

section \<open>Traversal and visibility\<close>

text \<open>
  C10. Neither traversal looks at the visibility of a layer set before it recurses
  into it. Whatever the visibility of its ancestors, a text layer anywhere in the
  tree is hidden by \<open>hideTextLayers\<close>, and a node whose name starts with the prefix
  is set to the requested visibility by \<open>processLayers\<close> and counted: the count is
  the number of all such nodes, and it is the same on the tree with the visibility of
  every node replaced by anything else.
\<close>

theorem traversal_ignores_visibility:
  "(node_at doc path = Some n \<and> isText n
      \<longrightarrow> (\<exists>n'. node_at (hideTextLayers doc) path = Some n' \<and> visible n' = False))
   \<and> (node_at doc path = Some n \<and> prefix p (name n)
      \<longrightarrow> (\<exists>n'. node_at (fst (processLayers doc p shouldShow m)) path = Some n'
             \<and> visible n' = shouldShow))
   \<and> snd (processLayers doc p shouldShow m)
       = m + length (filter (\<lambda>n. prefix p (name n)) (nodes doc))
   \<and> snd (processLayers (map (relabel f) doc) p shouldShow m)
       = snd (processLayers doc p shouldShow m)"
proof (intro conjI impI)
  assume "node_at doc path = Some n \<and> isText n"
  then have "node_at (hideTextLayers doc) path = Some (relabel textHidden n)"
    and "visible (relabel textHidden n) = False"
    by (simp_all add: hideTextLayers_relabel node_at_relabel visible_relabel textHidden_def)
  then show "\<exists>n'. node_at (hideTextLayers doc) path = Some n' \<and> visible n' = False"
    by blast
next
  assume "node_at doc path = Some n \<and> prefix p (name n)"
  then have "node_at (fst (processLayers doc p shouldShow m)) path
      = Some (relabel (toggled p shouldShow) n)"
    and "visible (relabel (toggled p shouldShow) n) = shouldShow"
    by (simp_all add: processLayers_relabel node_at_relabel visible_relabel toggled_def)
  then show "\<exists>n'. node_at (fst (processLayers doc p shouldShow m)) path = Some n'
             \<and> visible n' = shouldShow"
    by blast
next
  show "snd (processLayers doc p shouldShow m)
       = m + length (filter (\<lambda>n. prefix p (name n)) (nodes doc))"
    by (simp add: processLayers_relabel matching_def)
next
  show "snd (processLayers (map (relabel f) doc) p shouldShow m)
       = snd (processLayers doc p shouldShow m)"
    by (simp add: processLayers_relabel nodes_relabel matching_relabel)
qed

theorem traversal_ignores_visibility_witness:
  "node_at tree1 [0] = Some (LayerSet ''BG_Group'' False
              [ArtLayer ''BG_Sky'' False NORMAL [],
               ArtLayer ''Title'' True TEXT ''Hello'',
               LayerSet ''FG'' False [ArtLayer ''BG_Hill'' False NORMAL []]])
   \<and> node_at tree1 [0, 1] = Some (ArtLayer ''Title'' True TEXT ''Hello'')
   \<and> isText (ArtLayer ''Title'' True TEXT ''Hello'')
   \<and> (\<exists>n'. node_at (hideTextLayers tree1) [0, 1] = Some n' \<and> visible n' = False)
   \<and> node_at tree1 [0, 2, 0] = Some (ArtLayer ''BG_Hill'' False NORMAL [])
   \<and> prefix ''BG_'' (name (ArtLayer ''BG_Hill'' False NORMAL []))
   \<and> (\<exists>n'. node_at (fst (processLayers tree1 ''BG_'' True 0)) [0, 2, 0] = Some n'
          \<and> visible n' = True)
   \<and> snd (processLayers tree1 ''BG_'' True 0) = 3"
proof -
  have t: "node_at tree1 [0, 1] = Some (ArtLayer ''Title'' True TEXT ''Hello'')"
    and h: "node_at tree1 [0, 2, 0] = Some (ArtLayer ''BG_Hill'' False NORMAL [])"
    and g: "node_at tree1 [0] = Some (LayerSet ''BG_Group'' False
              [ArtLayer ''BG_Sky'' False NORMAL [],
               ArtLayer ''Title'' True TEXT ''Hello'',
               LayerSet ''FG'' False [ArtLayer ''BG_Hill'' False NORMAL []]])"
    by (simp_all add: tree1_def)
  have cnt: "length (filter (\<lambda>n. prefix ''BG_'' (name n)) (nodes tree1)) = 3"
    by (simp add: tree1_def nodes_def)
  have a: "\<exists>n'. node_at (hideTextLayers tree1) [0, 1] = Some n' \<and> visible n' = False"
    using traversal_ignores_visibility
      [of tree1 "[0, 1]" "ArtLayer ''Title'' True TEXT ''Hello''"] t by simp
  have b: "(\<exists>n'. node_at (fst (processLayers tree1 ''BG_'' True 0)) [0, 2, 0] = Some n'
          \<and> visible n' = True) \<and> snd (processLayers tree1 ''BG_'' True 0) = 3"
    using traversal_ignores_visibility
      [of tree1 "[0, 2, 0]" "ArtLayer ''BG_Hill'' False NORMAL []" "''BG_''" True 0] h cnt
    by simp
  from t h g a b show ?thesis by simp
qed

section \<open>Rename groups from text\<close>

text \<open>
  C4, as the code has it. For each top-level layer set on its own: when the first
  text layer in the order of search (the text layers among its direct children
  first, then its nested layer sets in order, each searched the same way) has
  contents that are not empty, the renaming gives the layer set these contents as
  its name and changes nothing else in it.
\<close>

theorem rename_sets_name_to_first_nonempty_text:
  assumes "activeDocument a = Some doc" and "i < length doc" and "doc ! i = LayerSet n v cs"
    and "searchOrder (LayerSet n v cs) = t # rest" and "t \<noteq> []"
  shows "\<exists>doc'. activeDocument (renameGroupsFromText a) = Some doc'
           \<and> length doc' = length doc \<and> doc' ! i = LayerSet t v cs"
proof -
  from assms(4,5) have "getTextFromGroup (LayerSet n v cs) = Some t"
    using getText_searchOrder(1) [of "LayerSet n v cs"] by blast
  with assms(5) have "renameGroup (LayerSet n v cs) = LayerSet t v cs"
    by (simp add: renameGroup_def)
  with assms(1-3) show ?thesis
    by (simp add: rename_script_run alert_def)
qed

theorem rename_sets_name_to_first_nonempty_text_witness:
  "activeDocument app2 = Some tree2 \<and> 0 < length tree2
   \<and> tree2 ! 0 = LayerSet ''Act 1'' True
              [ArtLayer ''Layer 1'' True TEXT ''Scene A'', LayerSet ''Inner'' True []]
   \<and> searchOrder (tree2 ! 0) = [''Scene A'']
   \<and> (\<exists>doc'. activeDocument (renameGroupsFromText app2) = Some doc'
          \<and> length doc' = length tree2
          \<and> doc' ! 0 = LayerSet ''Scene A'' True
              [ArtLayer ''Layer 1'' True TEXT ''Scene A'', LayerSet ''Inner'' True []])"
proof -
  have doc: "activeDocument app2 = Some tree2" by (simp add: app2_def)
  have len: "0 < length tree2" by (simp add: tree2_def)
  have at: "tree2 ! 0 = LayerSet ''Act 1'' True
              [ArtLayer ''Layer 1'' True TEXT ''Scene A'', LayerSet ''Inner'' True []]"
    by (simp add: tree2_def)
  have so: "searchOrder (LayerSet ''Act 1'' True
              [ArtLayer ''Layer 1'' True TEXT ''Scene A'', LayerSet ''Inner'' True []])
            = ''Scene A'' # []"
    by simp
  have ne: "''Scene A'' \<noteq> []" by simp
  from rename_sets_name_to_first_nonempty_text [OF doc len at so ne] doc len at so
  show ?thesis by simp
qed

text \<open>
  Without the condition on the contents the statement fails: the first text layer of
  the layer set \<open>Act 1\<close> below is empty, and the layer set keeps its name.
\<close>

theorem rename_empty_first_text_counterexample:
  "activeDocument app3 = Some tree3
   \<and> searchOrder (tree3 ! 0) = [[], ''Scene A'']
   \<and> name (the (activeDocument (renameGroupsFromText app3)) ! 0) = ''Act 1''
   \<and> name (the (activeDocument (renameGroupsFromText app3)) ! 0) \<noteq> hd (searchOrder (tree3 ! 0))"
  by (simp add: app3_def tree3_def renameGroupsFromText_def renameLoop_def renameStep_def
      layerSets_def artLayers_def alert_def)

text \<open>
  C6. A layer set with no text layer among its descendants, at the top level or
  nested at any depth, has the same name after the renaming as before.
\<close>

theorem rename_keeps_groups_without_text:
  assumes "activeDocument a = Some doc" and "node_at doc path = Some g" and "isLayerSet g"
    and "\<forall>d \<in> set (nodes (layers g)). \<not> isText d"
  shows "\<exists>doc' g'. activeDocument (renameGroupsFromText a) = Some doc'
           \<and> node_at doc' path = Some g' \<and> name g' = name g"
proof -
  let ?rn = "\<lambda>l. if isLayerSet l then renameGroup l else l"
  have run: "activeDocument (renameGroupsFromText a) = Some (map ?rn doc)"
    using assms(1) by (simp add: rename_script_run alert_def)
  from assms(4) getText_needs_text(1) [of g] have "getTextFromGroup g = None" by blast
  then have same: "renameGroup g = g" by (simp add: renameGroup_def)
  have "node_at (map ?rn doc) path = Some g"
  proof (cases path)
    case Nil
    with assms(2) show ?thesis by simp
  next
    case (Cons i rest)
    show ?thesis
    proof (cases rest)
      case Nil
      with Cons assms(2) have "i < length doc" "doc ! i = g" by (auto split: if_splits)
      with Cons Nil same assms(3) show ?thesis by simp
    next
      case (Cons j more)
      with \<open>path = i # rest\<close> assms(2) show ?thesis by (simp only: node_at_renamed)
    qed
  qed
  with run show ?thesis by blast
qed

theorem rename_keeps_groups_without_text_witness:
  "activeDocument app2 = Some tree2
   \<and> node_at tree2 [2] = Some (LayerSet ''Act/2'' False [])
   \<and> node_at tree2 [0, 1] = Some (LayerSet ''Inner'' True [])
   \<and> (\<exists>doc' g' h'. activeDocument (renameGroupsFromText app2) = Some doc'
          \<and> node_at doc' [2] = Some g' \<and> name g' = ''Act/2''
          \<and> node_at doc' [0, 1] = Some h' \<and> name h' = ''Inner'')"
proof -
  have doc: "activeDocument app2 = Some tree2" by (simp add: app2_def)
  have g: "node_at tree2 [2] = Some (LayerSet ''Act/2'' False [])"
    and h: "node_at tree2 [0, 1] = Some (LayerSet ''Inner'' True [])"
    by (simp_all add: tree2_def)
  have s: "isLayerSet (LayerSet ''Act/2'' False [])" "isLayerSet (LayerSet ''Inner'' True [])"
    by simp_all
  have nt: "\<forall>d \<in> set (nodes (layers (LayerSet ''Act/2'' False []))). \<not> isText d"
    "\<forall>d \<in> set (nodes (layers (LayerSet ''Inner'' True []))). \<not> isText d"
    by (simp_all add: nodes_def)
  from rename_keeps_groups_without_text [OF doc g s(1) nt(1)]
  obtain d1 g1 where d1: "activeDocument (renameGroupsFromText app2) = Some d1"
    and g1: "node_at d1 [2] = Some g1" "name g1 = ''Act/2''" by auto
  from rename_keeps_groups_without_text [OF doc h s(2) nt(2)]
  obtain d2 h2 where d2: "activeDocument (renameGroupsFromText app2) = Some d2"
    and h2: "node_at d2 [0, 1] = Some h2" "name h2 = ''Inner''" by auto
  from d1 d2 have "d2 = d1" by simp
  with d1 g1 h2 have "\<exists>doc' g' h'. activeDocument (renameGroupsFromText app2) = Some doc'
          \<and> node_at doc' [2] = Some g' \<and> name g' = ''Act/2''
          \<and> node_at doc' [0, 1] = Some h' \<and> name h' = ''Inner''"
    by blast
  with doc g h show ?thesis by blast
qed

text \<open>
  C9. Empty contents are falsy. When the first text layer among the direct children
  of a layer set is empty, \<open>getTextFromGroup\<close> returns the empty string whatever
  else the layer set holds, and a top-level layer set is then not renamed. When no
  direct child is a text layer, a nested layer set whose result is \<open>null\<close> or the
  empty string is passed over: the result is that of the first nested layer set with
  a non-empty result, and \<open>null\<close> when there is none.
\<close>

theorem empty_text_is_falsy:
  "(filter isText (artLayers cs) = l # ls \<and> contents l = []
      \<longrightarrow> getTextFromGroup (LayerSet n v cs) = Some []
          \<and> (activeDocument a = Some doc \<and> i < length doc \<and> doc ! i = LayerSet n v cs
              \<longrightarrow> (\<exists>doc'. activeDocument (renameGroupsFromText a) = Some doc'
                     \<and> doc' ! i = LayerSet n v cs)))
   \<and> (filter isText (artLayers cs) = [] \<and> layerSets cs = gs1 @ g # gs2
        \<and> (\<forall>x \<in> set gs1. getTextFromGroup x = None \<or> getTextFromGroup x = Some [])
        \<and> getTextFromGroup g = Some t \<and> t \<noteq> []
      \<longrightarrow> getTextFromGroup (LayerSet n v cs) = Some t)
   \<and> (filter isText (artLayers cs) = []
        \<and> (\<forall>x \<in> set (layerSets cs). getTextFromGroup x = None \<or> getTextFromGroup x = Some [])
      \<longrightarrow> getTextFromGroup (LayerSet n v cs) = None)"
proof (intro conjI impI)
  assume "filter isText (artLayers cs) = l # ls \<and> contents l = []"
  then show e: "getTextFromGroup (LayerSet n v cs) = Some []"
    by (simp add: directText_filter)
  assume "activeDocument a = Some doc \<and> i < length doc \<and> doc ! i = LayerSet n v cs"
  with e show "\<exists>doc'. activeDocument (renameGroupsFromText a) = Some doc'
                     \<and> doc' ! i = LayerSet n v cs"
    by (simp add: rename_script_run alert_def renameGroup_def)
next
  assume h: "filter isText (artLayers cs) = [] \<and> layerSets cs = gs1 @ g # gs2
        \<and> (\<forall>x \<in> set gs1. getTextFromGroup x = None \<or> getTextFromGroup x = Some [])
        \<and> getTextFromGroup g = Some t \<and> t \<noteq> []"
  then have "\<forall>x \<in> set gs1. \<not> truthy (getTextFromGroup x)" by (simp add: not_truthy_iff)
  then have "nestedLoop (gs1 @ g # gs2) = nestedLoop (g # gs2)" by (rule nestedLoop_skip)
  with h show "getTextFromGroup (LayerSet n v cs) = Some t"
    by (simp add: directText_filter)
next
  assume h: "filter isText (artLayers cs) = []
        \<and> (\<forall>x \<in> set (layerSets cs). getTextFromGroup x = None \<or> getTextFromGroup x = Some [])"
  then have "\<forall>x \<in> set (layerSets cs). \<not> truthy (getTextFromGroup x)"
    by (simp add: not_truthy_iff)
  then have "nestedLoop (layerSets cs) = None" by (rule nestedLoop_all_falsy)
  with h show "getTextFromGroup (LayerSet n v cs) = None"
    by (simp add: directText_filter)
qed

theorem empty_text_is_falsy_witness:
  "filter isText (artLayers (layers (tree3 ! 0))) = [ArtLayer ''Layer 1'' True TEXT []]
   \<and> contents (ArtLayer ''Layer 1'' True TEXT []) = []
   \<and> getTextFromGroup (LayerSet ''Inner'' True [ArtLayer ''Layer 2'' True TEXT ''Scene A''])
       = Some ''Scene A''
   \<and> getTextFromGroup (tree3 ! 0) = Some []
   \<and> (\<exists>doc'. activeDocument (renameGroupsFromText app3) = Some doc' \<and> doc' ! 0 = tree3 ! 0)
   \<and> filter isText (artLayers (layers (tree4 ! 0))) = []
   \<and> getTextFromGroup (LayerSet ''A'' True [ArtLayer ''Layer 1'' True TEXT []]) = Some []
   \<and> getTextFromGroup (LayerSet ''B'' True []) = None
   \<and> getTextFromGroup (LayerSet ''C'' True [ArtLayer ''Layer 2'' True TEXT ''Scene C''])
       = Some ''Scene C''
   \<and> getTextFromGroup (tree4 ! 0) = Some ''Scene C''"
proof -
  let ?cs3 = "[ArtLayer ''Layer 1'' True TEXT [],
               LayerSet ''Inner'' True [ArtLayer ''Layer 2'' True TEXT ''Scene A'']]"
  let ?A = "LayerSet ''A'' True [ArtLayer ''Layer 1'' True TEXT []]"
  let ?B = "LayerSet ''B'' True []"
  let ?C = "LayerSet ''C'' True [ArtLayer ''Layer 2'' True TEXT ''Scene C'']"
  have t3: "tree3 ! 0 = LayerSet ''Act 1'' True ?cs3" "0 < length tree3"
    and t4: "tree4 ! 0 = LayerSet ''Act 1'' True [?A, ?B, ?C]"
    by (simp_all add: tree3_def tree4_def)
  have doc: "activeDocument app3 = Some tree3" by (simp add: app3_def)
  have f3: "filter isText (artLayers ?cs3) = [ArtLayer ''Layer 1'' True TEXT []]"
    and c3: "contents (ArtLayer ''Layer 1'' True TEXT []) = []"
    by (simp_all add: artLayers_def)
  have deep: "getTextFromGroup (LayerSet ''Inner'' True [ArtLayer ''Layer 2'' True TEXT ''Scene A''])
       = Some ''Scene A''"
    by (simp add: artLayers_def)
  have f4: "filter isText (artLayers [?A, ?B, ?C]) = []"
    and l4: "layerSets [?A, ?B, ?C] = [?A, ?B] @ ?C # []"
    by (simp_all add: artLayers_def layerSets_def)
  have rA: "getTextFromGroup ?A = Some []" and rB: "getTextFromGroup ?B = None"
    and rC: "getTextFromGroup ?C = Some ''Scene C''"
    by (simp_all add: artLayers_def layerSets_def)
  have skip: "\<forall>x \<in> set [?A, ?B]. getTextFromGroup x = None \<or> getTextFromGroup x = Some []"
    using rA rB by simp
  have ne: "''Scene C'' \<noteq> []" by simp
  have a: "getTextFromGroup (LayerSet ''Act 1'' True ?cs3) = Some []
      \<and> (\<exists>doc'. activeDocument (renameGroupsFromText app3) = Some doc'
             \<and> doc' ! 0 = LayerSet ''Act 1'' True ?cs3)"
    using empty_text_is_falsy [where cs = ?cs3 and l = "ArtLayer ''Layer 1'' True TEXT []"
        and ls = "[]" and n = "''Act 1''" and v = True and a = app3 and doc = tree3 and i = 0]
      f3 c3 doc t3 by blast
  have b: "getTextFromGroup (LayerSet ''Act 1'' True [?A, ?B, ?C]) = Some ''Scene C''"
    using empty_text_is_falsy [where cs = "[?A, ?B, ?C]" and ?gs1.0 = "[?A, ?B]" and g = ?C
        and ?gs2.0 = "[]" and t = "''Scene C''" and n = "''Act 1''" and v = True]
      f4 l4 skip rC ne by blast
  from a b t3 t4 f3 c3 deep f4 rA rB rC show ?thesis by simp
qed

section \<open>No document open\<close>

text \<open>
  C5, as the code has it. When no document is open, the toggle, the renaming and the
  export each show one notice and do nothing else; the script that hides the text
  layers does nothing at all and shows no notice.
\<close>

theorem no_document_open:
  assumes "activeDocument a = None"
  shows "toggleLayersByPrefix a prefixAnswer actionAnswer
           = a\<lparr>alerts := alerts a @ [''Please open a document first.'']\<rparr>
         \<and> renameGroupsFromText a = a\<lparr>alerts := alerts a @ [''No document open!'']\<rparr>
         \<and> export_all_groups_jsx saveAs a folderAnswer
           = Inr (a\<lparr>alerts := alerts a @ [''Please open a document first.'']\<rparr>)
         \<and> hide_all_text_layers_jsx a = a"
  using assms
  by (simp add: toggleLayersByPrefix_def renameGroupsFromText_def export_all_groups_jsx_def
      hide_all_text_layers_jsx_def alert_def)

theorem no_document_open_witness:
  "activeDocument app0 = None
   \<and> toggleLayersByPrefix app0 (Some ''BG_'') (Some ''show'')
       = \<lparr>activeDocument = None, alerts = [''Please open a document first.''], saved = []\<rparr>
   \<and> renameGroupsFromText app0
       = \<lparr>activeDocument = None, alerts = [''No document open!''], saved = []\<rparr>
   \<and> export_all_groups_jsx saveOk app0 (Some folder1)
       = Inr \<lparr>activeDocument = None, alerts = [''Please open a document first.''], saved = []\<rparr>
   \<and> hide_all_text_layers_jsx app0 = app0"
proof -
  have n: "activeDocument app0 = None" by (simp add: app0_def)
  from no_document_open [OF n, of "Some ''BG_''" "Some ''show''" saveOk "Some folder1"] n
  show ?thesis by (simp add: app0_def)
qed

text \<open>
  The script that hides the text layers shows no notice when no document is open.
\<close>

theorem hide_all_text_silent_counterexample:
  "activeDocument app0 = None \<and> alerts (hide_all_text_layers_jsx app0) = alerts app0
   \<and> alerts (hide_all_text_layers_jsx app0) = []"
  by (simp add: app0_def hide_all_text_layers_jsx_def)

end
